theory Spec2Isabelle
  imports Main "HOL-Library.Sublist"
begin

section \<open>The book catalogue service of \<^verbatim>\<open>src/index.js\<close>\<close>

text \<open>
  The service keeps one array \<^verbatim>\<open>books\<close> of JavaScript objects and answers six HTTP
  routes. The embedding passes the array explicitly: every handler takes the array and
  the request and returns the new array together with what the handler did (the response
  it sent, or the exception it threw).

  Conventions of the embedding:
  \<^item> a string is a list of characters; the 256 characters of HOL are read as the code
    units U+0000 to U+00FF;
  \<^item> a number is an IEEE double. The service computes with numbers only in
    \<^verbatim>\<open>parseInt(id) + 1\<close>, where every value is \<^verbatim>\<open>NaN\<close>, an infinity or an
    integer, so these are the numbers of the embedding; rounding to 53 significant
    bits, overflow and the decimal output of \<^verbatim>\<open>Number.prototype.toString\<close> are
    written out. A number in a JSON body is given by the integer literal it is parsed
    from; fractions are not represented;
  \<^item> an object is a finite map from property names to values; \<^verbatim>\<open>undefined\<close> is
    the absence of a value (\<open>None\<close>), which is all that a parsed JSON body can produce.
\<close>

subsection \<open>Values\<close>

datatype jsval =
    JNull
  | JBool bool
  | JNum int
  | JStr string
  | JArr "jsval list"
  | JObj "string \<Rightarrow> jsval option"

type_synonym obj = "string \<Rightarrow> jsval option"
type_synonym book = obj

datatype error = TypeError

text \<open>The numbers that \<^verbatim>\<open>parseInt\<close> and \<^verbatim>\<open>+ 1\<close> produce: \<^verbatim>\<open>NaN\<close>, the two
  infinities, and the doubles with an integer value (\<open>Num 0\<close> stands for both zeros,
  which \<^verbatim>\<open>+ 1\<close> and \<^verbatim>\<open>toString\<close> do not tell apart).\<close>

datatype number = NaN | PosInf | NegInf | Num int

text \<open>\<^verbatim>\<open>!x\<close> is false exactly on the truthy values: everything but \<^verbatim>\<open>undefined\<close>,
  \<^verbatim>\<open>null\<close>, \<^verbatim>\<open>false\<close>, \<^verbatim>\<open>0\<close> and the empty string.\<close>

fun truthy :: "jsval option \<Rightarrow> bool" where
  "truthy None = False"
| "truthy (Some JNull) = False"
| "truthy (Some (JBool b)) = b"
| "truthy (Some (JNum n)) = (n \<noteq> 0)"
| "truthy (Some (JStr s)) = (s \<noteq> [])"
| "truthy (Some (JArr xs)) = True"
| "truthy (Some (JObj ob)) = True"

subsection \<open>Numbers and strings: \<^verbatim>\<open>toString\<close> and \<^verbatim>\<open>parseInt\<close>\<close>

definition digit_char :: "nat \<Rightarrow> char" where
  "digit_char d = ''0123456789'' ! d"

fun digits :: "nat \<Rightarrow> string" where
  "digits n = (if n < 10 then [digit_char n] else digits (n div 10) @ [digit_char (n mod 10)])"

declare digits.simps [simp del]

text \<open>
  The double nearest to an integer. \<open>bitlen a\<close> is the number of binary digits of \<open>a\<close>;
  a magnitude of more than 53 bits loses its low \<open>e = bitlen a - 53\<close> bits, rounded to the
  nearest multiple of \<open>2 ^ e\<close>, a tie going to the even one. A result of more than 1024
  bits (\<open>2 ^ 1024\<close> or more) is an infinity.
\<close>

fun bitlen :: "nat \<Rightarrow> nat" where
  "bitlen n = (if n = 0 then 0 else Suc (bitlen (n div 2)))"

declare bitlen.simps [simp del]

definition round_to :: "nat \<Rightarrow> nat \<Rightarrow> nat" where
  "round_to e a =
     (if 2 ^ e < 2 * (a mod 2 ^ e) \<or> (2 * (a mod 2 ^ e) = 2 ^ e \<and> odd (a div 2 ^ e))
      then (a div 2 ^ e + 1) * 2 ^ e
      else (a div 2 ^ e) * 2 ^ e)"

definition round_nat :: "nat \<Rightarrow> nat" where
  "round_nat a = round_to (bitlen a - 53) a"

definition to_number :: "int \<Rightarrow> number" where
  "to_number v =
     (let a = round_nat (nat \<bar>v\<bar>)
      in if 1024 < bitlen a then (if v < 0 then NegInf else PosInf)
         else Num (if v < 0 then - int a else int a))"

text \<open>\<^verbatim>\<open>x + 1\<close> on a number: the exact sum, rounded.\<close>

fun plus1 :: "number \<Rightarrow> number" where
  "plus1 NaN = NaN"
| "plus1 PosInf = PosInf"
| "plus1 NegInf = NegInf"
| "plus1 (Num n) = to_number (n + 1)"

text \<open>
  \<^verbatim>\<open>Number.prototype.toString\<close> prints the decimal with the fewest significant digits
  that still reads back as the same double, and of those the one nearest to it (the even
  one on a tie). For an integer double \<open>a\<close> the candidates with \<open>j\<close> trailing zeros are
  the two multiples of \<open>10 ^ j\<close> around \<open>a\<close>; the search goes from the coarsest \<open>j\<close>
  to \<open>j = 0\<close>, where \<open>a\<close> itself is found.
\<close>

definition reads_as :: "nat \<Rightarrow> nat \<Rightarrow> bool" where
  "reads_as v a \<longleftrightarrow> 0 < v \<and> to_number (int v) = Num (int a)"

definition below :: "nat \<Rightarrow> nat \<Rightarrow> nat" where
  "below g a = (a div g) * g"

definition above :: "nat \<Rightarrow> nat \<Rightarrow> nat" where
  "above g a = (a div g) * g + g"

definition select :: "bool \<Rightarrow> bool \<Rightarrow> nat \<Rightarrow> nat \<Rightarrow> nat \<Rightarrow> nat" where
  "select okL okH g a finer =
     (if okL \<and> okH
      then (if a - below g a < above g a - a then below g a
            else if above g a - a < a - below g a then above g a
            else if even (a div g) then below g a else above g a)
      else if okL then below g a
      else if okH then above g a
      else finer)"

definition pick :: "nat \<Rightarrow> nat \<Rightarrow> nat \<Rightarrow> nat" where
  "pick g a finer = select (reads_as (below g a) a) (reads_as (above g a) a) g a finer"

fun shortest_from :: "nat \<Rightarrow> nat \<Rightarrow> nat" where
  "shortest_from j a = (if j = 0 then a else pick (10 ^ j) a (shortest_from (j - 1) a))"

declare shortest_from.simps [simp del]

definition shortest :: "nat \<Rightarrow> nat" where
  "shortest a = shortest_from (length (digits a)) a"

text \<open>Up to 21 digits are printed in full; a longer decimal is printed in exponent
  notation, its digits without the trailing zeros.\<close>

definition strip_zeros :: "string \<Rightarrow> string" where
  "strip_zeros ds = rev (dropWhile (\<lambda>c. c = CHR ''0'') (rev ds))"

definition mantissa :: "string \<Rightarrow> string" where
  "mantissa s = (if length s = 1 then s else hd s # CHR ''.'' # tl s)"

definition layout :: "string \<Rightarrow> string" where
  "layout ds =
     (if length ds \<le> 21 then ds
      else mantissa (strip_zeros ds) @ ''e+'' @ digits (length ds - 1))"

definition nat_toString :: "nat \<Rightarrow> string" where
  "nat_toString a = layout (digits (shortest a))"

fun number_toString :: "number \<Rightarrow> string" where
  "number_toString NaN = ''NaN''"
| "number_toString PosInf = ''Infinity''"
| "number_toString NegInf = ''-Infinity''"
| "number_toString (Num n) = (if n < 0 then CHR ''-'' # nat_toString (nat (- n)) else nat_toString (nat n))"

text \<open>
  The abstract operation ToString on a value, as \<^verbatim>\<open>parseInt\<close> applies it to its
  argument. An array is joined with commas, \<^verbatim>\<open>null\<close> elements giving the empty
  string. An object parsed from JSON inherits \<^verbatim>\<open>Object.prototype.toString\<close> unless
  it has a property \<^verbatim>\<open>toString\<close> of its own; that property is then data, not a
  function, and the conversion throws a TypeError.
\<close>

fun toString :: "jsval \<Rightarrow> error + string"
  and join :: "jsval list \<Rightarrow> error + string"
  and element :: "jsval \<Rightarrow> error + string" where
  "toString JNull = Inr ''null''"
| "toString (JBool b) = Inr (if b then ''true'' else ''false'')"
| "toString (JNum n) = Inr (number_toString (to_number n))"
| "toString (JStr s) = Inr s"
| "toString (JArr xs) = join xs"
| "toString (JObj ob) = (if ob ''toString'' \<noteq> None then Inl TypeError else Inr ''[object Object]'')"
| "join [] = Inr []"
| "join [x] = element x"
| "join (x # y # ys) =
     (case element x of
        Inl e \<Rightarrow> Inl e
      | Inr s \<Rightarrow> (case join (y # ys) of Inl e \<Rightarrow> Inl e | Inr t \<Rightarrow> Inr (s @ '','' @ t)))"
| "element JNull = Inr []"
| "element (JBool b) = toString (JBool b)"
| "element (JNum n) = toString (JNum n)"
| "element (JStr s) = toString (JStr s)"
| "element (JArr xs) = toString (JArr xs)"
| "element (JObj ob) = toString (JObj ob)"

fun toString_opt :: "jsval option \<Rightarrow> error + string" where
  "toString_opt None = Inr ''undefined''"
| "toString_opt (Some v) = toString v"

definition is_whitespace :: "char \<Rightarrow> bool" where
  "is_whitespace c \<longleftrightarrow> c \<in> set [CHR 0x09, CHR 0x0A, CHR 0x0B, CHR 0x0C, CHR 0x0D, CHR 0x20, CHR 0xA0]"

definition digit_value :: "char \<Rightarrow> nat option" where
  "digit_value c =
     (let k = (of_char c :: nat) in
      if 48 \<le> k \<and> k \<le> 57 then Some (k - 48)
      else if 97 \<le> k \<and> k \<le> 122 then Some (k - 87)
      else if 65 \<le> k \<and> k \<le> 90 then Some (k - 55)
      else None)"

definition is_digit :: "nat \<Rightarrow> char \<Rightarrow> bool" where
  "is_digit R c = (case digit_value c of None \<Rightarrow> False | Some d \<Rightarrow> d < R)"

definition radix_value :: "nat \<Rightarrow> string \<Rightarrow> nat" where
  "radix_value R Z = foldl (\<lambda>acc c. acc * R + the (digit_value c)) 0 Z"

text \<open>
  \<^verbatim>\<open>parseInt(string)\<close> with no radix, on the string already converted: leading white
  space is dropped, one sign is read, a prefix \<^verbatim>\<open>0x\<close> or \<^verbatim>\<open>0X\<close> selects radix 16,
  and the longest run of digits of the radix is the value, rounded to a double; no digit
  gives \<^verbatim>\<open>NaN\<close>.
\<close>

definition parseInt :: "string \<Rightarrow> number" where
  "parseInt inputString =
     (let S = dropWhile is_whitespace inputString;
          sign = (if S \<noteq> [] \<and> hd S = CHR ''-'' then - 1 else 1 :: int);
          S = (if S \<noteq> [] \<and> (hd S = CHR ''+'' \<or> hd S = CHR ''-'') then tl S else S);
          hex = (take 2 S = ''0x'' \<or> take 2 S = ''0X'');
          R = (if hex then 16 else 10 :: nat);
          S = (if hex then drop 2 S else S);
          Z = takeWhile (is_digit R) S
      in if Z = [] then NaN else to_number (sign * int (radix_value R Z)))"

subsection \<open>The collection and its helpers\<close>

definition seed :: "book list" where
  "seed =
     [ [''id'' \<mapsto> JStr ''1'', ''title'' \<mapsto> JStr ''The Lord of the Rings'',
        ''author'' \<mapsto> JStr ''J.R.R. Tolkien'', ''year'' \<mapsto> JNum 1954],
       [''id'' \<mapsto> JStr ''2'', ''title'' \<mapsto> JStr ''Pride and Prejudice'',
        ''author'' \<mapsto> JStr ''Jane Austen'', ''year'' \<mapsto> JNum 1813] ]"

text \<open>\<^verbatim>\<open>book.id === id\<close> for a string \<^verbatim>\<open>id\<close>: strict equality, no conversion.\<close>

definition id_is :: "string \<Rightarrow> book \<Rightarrow> bool" where
  "id_is i b \<longleftrightarrow> b ''id'' = Some (JStr i)"

definition findBookById :: "book list \<Rightarrow> string \<Rightarrow> book option" where
  "findBookById books i = find (id_is i) books"

text \<open>\<^verbatim>\<open>Array.prototype.findIndex\<close>; \<open>None\<close> stands for the result \<^verbatim>\<open>-1\<close>.\<close>

fun findIndex :: "('a \<Rightarrow> bool) \<Rightarrow> 'a list \<Rightarrow> nat option" where
  "findIndex P [] = None"
| "findIndex P (x # xs) = (if P x then Some 0 else map_option Suc (findIndex P xs))"

definition generateNewId :: "book list \<Rightarrow> error + string" where
  "generateNewId books =
     (if length books = 0 then Inr ''1''
      else (case toString_opt ((books ! (length books - 1)) ''id'') of
              Inl e \<Rightarrow> Inl e
            | Inr s \<Rightarrow> Inr (number_toString (plus1 (parseInt s)))))"

subsection \<open>Responses and handlers\<close>

datatype payload = NoData | OneBook book | AllBooks "book list"

record response =
  code :: nat
  status :: string
  message :: string
  data :: payload

text \<open>What a handler did: it sent a response, or an exception left it (Express then
  answers on its own, outside the service's code).\<close>

type_synonym outcome = "error + response"

definition get_books :: "book list \<Rightarrow> book list \<times> outcome" where
  "get_books books =
     (if length books > 0
      then (books, Inr \<lparr>code = 200, status = ''success'',
                        message = ''Successfully retrieved all books'', data = AllBooks books\<rparr>)
      else (books, Inr \<lparr>code = 404, status = ''fail'',
                        message = ''No books found'', data = NoData\<rparr>))"

definition get_book :: "string \<Rightarrow> book list \<Rightarrow> book list \<times> outcome" where
  "get_book i books =
     (case findBookById books i of
        Some b \<Rightarrow> (books, Inr \<lparr>code = 200, status = ''success'',
                     message = ''Successfully retrieved book with id '' @ i, data = OneBook b\<rparr>)
      | None \<Rightarrow> (books, Inr \<lparr>code = 404, status = ''fail'',
                     message = ''Book with id '' @ i @ '' not found'', data = NoData\<rparr>))"

definition post_book :: "obj \<Rightarrow> book list \<Rightarrow> book list \<times> outcome" where
  "post_book body books =
     (let title = body ''title''; author = body ''author''; year = body ''year'' in
      if \<not> truthy title \<or> \<not> truthy author \<or> \<not> truthy year
      then (books, Inr \<lparr>code = 400, status = ''fail'',
                        message = ''Title, author, and year are required'', data = NoData\<rparr>)
      else (case generateNewId books of
              Inl e \<Rightarrow> (books, Inl e)
            | Inr newId \<Rightarrow>
                (let newBook = (Map.empty(''id'' \<mapsto> JStr newId))
                                 (''title'' := title, ''author'' := author, ''year'' := year)
                 in (books @ [newBook],
                     Inr \<lparr>code = 201, status = ''success'',
                          message = ''Book added successfully'', data = OneBook newBook\<rparr>))))"

definition put_book :: "string \<Rightarrow> obj \<Rightarrow> book list \<Rightarrow> book list \<times> outcome" where
  "put_book i body books =
     (let title = body ''title''; author = body ''author''; year = body ''year'' in
      case findIndex (id_is i) books of
        Some bookIndex \<Rightarrow>
          if \<not> truthy title \<or> \<not> truthy author \<or> \<not> truthy year
          then (books, Inr \<lparr>code = 400, status = ''fail'',
                  message = ''Title, author, and year are required for a complete update'',
                  data = NoData\<rparr>)
          else (let books' = books[bookIndex :=
                                (books ! bookIndex)
                                  (''title'' := title, ''author'' := author, ''year'' := year)]
                in (books', Inr \<lparr>code = 200, status = ''success'',
                      message = ''Book with id '' @ i @ '' updated successfully (full update)'',
                      data = OneBook (books' ! bookIndex)\<rparr>))
      | None \<Rightarrow> (books, Inr \<lparr>code = 404, status = ''fail'',
                    message = ''Book with id '' @ i @ '' not found'', data = NoData\<rparr>))"

definition patch_book :: "string \<Rightarrow> obj \<Rightarrow> book list \<Rightarrow> book list \<times> outcome" where
  "patch_book i updates books =
     (case findIndex (id_is i) books of
        Some bookIndex \<Rightarrow>
          (let books' = books[bookIndex := (books ! bookIndex) ++ updates]
           in (books', Inr \<lparr>code = 200, status = ''success'',
                 message = ''Book with id '' @ i @ '' updated successfully (partial update)'',
                 data = OneBook (books' ! bookIndex)\<rparr>))
      | None \<Rightarrow> (books, Inr \<lparr>code = 404, status = ''fail'',
                    message = ''Book with id '' @ i @ '' not found'', data = NoData\<rparr>))"

definition delete_book :: "string \<Rightarrow> book list \<Rightarrow> book list \<times> outcome" where
  "delete_book i books =
     (let initialLength = length books;
          books' = filter (\<lambda>b. \<not> id_is i b) books
      in if length books' < initialLength
         then (books', Inr \<lparr>code = 200, status = ''success'',
                 message = ''Book with id '' @ i @ '' deleted successfully'', data = NoData\<rparr>)
         else (books', Inr \<lparr>code = 404, status = ''fail'',
                 message = ''Book with id '' @ i @ '' not found'', data = NoData\<rparr>))"

subsection \<open>Requests and runs\<close>

datatype request =
    List
  | Get string
  | Create obj
  | Put string obj
  | Patch string obj
  | Delete string

fun handle :: "request \<Rightarrow> book list \<Rightarrow> book list \<times> outcome" where
  "handle List books = get_books books"
| "handle (Get i) books = get_book i books"
| "handle (Create body) books = post_book body books"
| "handle (Put i body) books = put_book i body books"
| "handle (Patch i body) books = patch_book i body books"
| "handle (Delete i) books = delete_book i books"

text \<open>The array after a sequence of requests, served one after the other from the
  seed state.\<close>

definition run :: "request list \<Rightarrow> book list" where
  "run rs = foldl (\<lambda>books r. fst (handle r books)) seed rs"


subsection \<open>Notions used in the statements\<close>

text \<open>The \<^verbatim>\<open>id\<close> properties of the records, in the order of the array.\<close>

definition ids :: "book list \<Rightarrow> jsval option list" where
  "ids books = map (\<lambda>b. b ''id'') books"

text \<open>A request is a partial update whose body has a property \<^verbatim>\<open>id\<close>.\<close>

fun patches_id :: "request \<Rightarrow> bool" where
  "patches_id (Patch i body) = (body ''id'' \<noteq> None)"
| "patches_id r = False"

text \<open>The ids are the decimal numerals of strictly increasing numbers, none above \<open>m\<close>:
  the shape that create, delete and the updates keep as long as no request overwrites an
  id.\<close>

definition ascending_ids :: "nat \<Rightarrow> book list \<Rightarrow> bool" where
  "ascending_ids m books \<longleftrightarrow>
     (\<exists>ns. sorted_wrt (<) ns \<and> (\<forall>n\<in>set ns. n \<le> m)
           \<and> ids books = map (\<lambda>n. Some (JStr (digits n))) ns)"

text \<open>A body passes the check of create and of full update: none of the three fields is
  falsy.\<close>

definition complete :: "obj \<Rightarrow> bool" where
  "complete body \<longleftrightarrow> truthy (body ''title'') \<and> truthy (body ''author'') \<and> truthy (body ''year'')"

text \<open>The three fields that create and full update require and write.\<close>

definition required :: "string set" where
  "required = {''title'', ''author'', ''year''}"

text \<open>The two bodies of the specification's scenario.\<close>

definition dune :: obj where
  "dune = [''title'' \<mapsto> JStr ''Dune'', ''author'' \<mapsto> JStr ''Herbert'', ''year'' \<mapsto> JNum 1965]"

definition xy :: obj where
  "xy = [''title'' \<mapsto> JStr ''X'', ''author'' \<mapsto> JStr ''Y'', ''year'' \<mapsto> JNum 1]"

section \<open>Printing and parsing integers\<close>

lemma digit_value_digit_char: "d < 10 \<Longrightarrow> digit_value (digit_char d) = Some d"
proof -
  assume "d < 10"
  then consider "d = 0" | "d = 1" | "d = 2" | "d = 3" | "d = 4" | "d = 5" | "d = 6" | "d = 7" | "d = 8" | "d = 9"
    by atomize_elim arith
  then show ?thesis
    by cases (simp_all add: digit_value_def digit_char_def)
qed

lemma is_digit_digit_char: "d < 10 \<Longrightarrow> is_digit 10 (digit_char d)"
  by (simp add: is_digit_def digit_value_digit_char)

lemma digits_nonempty: "digits n \<noteq> []"
  by (subst digits.simps) simp

lemma digits_all_digit: "c \<in> set (digits n) \<Longrightarrow> \<exists>d<10. c = digit_char d"
proof (induction n rule: digits.induct)
  case (1 n)
  show ?case
  proof (cases "n < 10")
    case True
    with "1.prems" show ?thesis by (subst (asm) digits.simps) auto
  next
    case False
    with "1.prems" have "c \<in> set (digits (n div 10)) \<or> c = digit_char (n mod 10)"
      by (subst (asm) digits.simps) auto
    with False "1.IH" show ?thesis by (metis mod_less_divisor zero_less_numeral)
  qed
qed

lemma radix_value_snoc: "radix_value R (Z @ [c]) = radix_value R Z * R + the (digit_value c)"
  by (simp add: radix_value_def)

lemma radix_value_digits: "radix_value 10 (digits n) = n"
proof (induction n rule: digits.induct)
  case (1 n)
  show ?case
  proof (cases "n < 10")
    case True
    then show ?thesis
      by (subst digits.simps) (simp add: radix_value_def digit_value_digit_char)
  next
    case False
    then have "radix_value 10 (digits n) = radix_value 10 (digits (n div 10)) * 10 + n mod 10"
      by (subst digits.simps) (simp add: radix_value_snoc digit_value_digit_char)
    with False "1.IH" show ?thesis by simp
  qed
qed

lemma digit_char_plain:
  assumes "d < 10"
  shows "\<not> is_whitespace (digit_char d)" "digit_char d \<noteq> CHR ''+''" "digit_char d \<noteq> CHR ''-''"
    "digit_char d \<noteq> CHR ''x''" "digit_char d \<noteq> CHR ''X''"
proof -
  from assms consider "d = 0" | "d = 1" | "d = 2" | "d = 3" | "d = 4" | "d = 5" | "d = 6" | "d = 7" | "d = 8" | "d = 9"
    by atomize_elim arith
  then have "\<not> is_whitespace (digit_char d) \<and> digit_char d \<noteq> CHR ''+'' \<and> digit_char d \<noteq> CHR ''-''
    \<and> digit_char d \<noteq> CHR ''x'' \<and> digit_char d \<noteq> CHR ''X''"
    by cases (simp_all add: is_whitespace_def digit_char_def)
  then show "\<not> is_whitespace (digit_char d)" "digit_char d \<noteq> CHR ''+''" "digit_char d \<noteq> CHR ''-''"
    "digit_char d \<noteq> CHR ''x''" "digit_char d \<noteq> CHR ''X''"
    by simp_all
qed

lemma parseInt_digits_raw:
  "parseInt (digits n) = to_number (int n)"
proof -
  let ?S = "digits n"
  have all: "\<And>c. c \<in> set ?S \<Longrightarrow> \<exists>d<10. c = digit_char d"
    by (rule digits_all_digit)
  obtain c cs where S: "?S = c # cs"
    using digits_nonempty [of n] by (cases ?S) auto
  then obtain d where d: "d < 10" "c = digit_char d"
    using all [of c] by auto
  have ws: "dropWhile is_whitespace ?S = ?S"
    using S d digit_char_plain(1) by simp
  have sign: "hd ?S \<noteq> CHR ''+''" "hd ?S \<noteq> CHR ''-''"
    using S d digit_char_plain by simp_all
  have nohex: "take 2 ?S \<noteq> ''0x''" "take 2 ?S \<noteq> ''0X''"
  proof -
    show "take 2 ?S \<noteq> ''0x''"
    proof
      assume h: "take 2 ?S = ''0x''"
      then have "CHR ''x'' \<in> set (take 2 ?S)" by simp
      then have "CHR ''x'' \<in> set ?S" by (rule in_set_takeD)
      then show False using all digit_char_plain(4) by metis
    qed
    show "take 2 ?S \<noteq> ''0X''"
    proof
      assume h: "take 2 ?S = ''0X''"
      then have "CHR ''X'' \<in> set (take 2 ?S)" by simp
      then have "CHR ''X'' \<in> set ?S" by (rule in_set_takeD)
      then show False using all digit_char_plain(5) by metis
    qed
  qed
  have "\<forall>x\<in>set ?S. is_digit 10 x"
    using all is_digit_digit_char by fastforce
  then have tw: "takeWhile (is_digit 10) ?S = ?S"
    by (simp only: takeWhile_eq_all_conv)
  show ?thesis
    unfolding parseInt_def Let_def ws
    using sign nohex digits_nonempty [of n]
    by (simp add: tw [THEN eq_reflection] radix_value_digits del: takeWhile_eq_all_conv)
qed

lemma digits_inj: "digits m = digits n \<Longrightarrow> m = n"
  using radix_value_digits by metis

section \<open>Rounding and printing below \<open>2 ^ 53\<close>\<close>

text \<open>Up to \<open>2 ^ 53\<close> every integer is a double, adding 1 is exact, and the number is
  printed as its plain decimal numeral.\<close>

lemma bitlen_le: "a < 2 ^ k \<Longrightarrow> bitlen a \<le> k"
proof (induction k arbitrary: a)
  case 0
  then show ?case by (simp add: bitlen.simps)
next
  case (Suc k)
  then have "a div 2 < 2 ^ k" by simp
  then have "bitlen (a div 2) \<le> k" by (rule Suc.IH)
  then show ?case by (subst bitlen.simps) simp
qed

lemma bitlen_gt: "2 ^ k \<le> a \<Longrightarrow> k < bitlen a"
proof (induction k arbitrary: a)
  case 0
  then show ?case by (subst bitlen.simps) simp
next
  case (Suc k)
  then have "2 ^ k \<le> a div 2" by simp
  then have "k < bitlen (a div 2)" by (rule Suc.IH)
  moreover have "0 < (2::nat) ^ Suc k" by simp
  with Suc.prems have "a \<noteq> 0" by linarith
  ultimately show ?case by (subst bitlen.simps) simp
qed

lemma bitlen_lower: "0 < a \<Longrightarrow> 2 ^ (bitlen a - 1) \<le> a"
proof (induction a rule: bitlen.induct)
  case (1 n)
  show ?case
  proof (cases "n div 2 = 0")
    case True
    with "1.prems" have "bitlen n = 1" by (simp add: bitlen.simps)
    with "1.prems" show ?thesis by simp
  next
    case False
    with "1.prems" "1.IH" have ih: "2 ^ (bitlen (n div 2) - 1) \<le> n div 2" by simp
    from False have "0 < bitlen (n div 2)" by (subst bitlen.simps) simp
    then have "(2::nat) ^ bitlen (n div 2) = 2 * 2 ^ (bitlen (n div 2) - 1)"
      by (cases "bitlen (n div 2)") simp_all
    also have "\<dots> \<le> 2 * (n div 2)" using ih by simp
    also have "\<dots> \<le> n" by simp
    finally have "2 ^ bitlen (n div 2) \<le> n" .
    moreover from "1.prems" have "bitlen n = Suc (bitlen (n div 2))" by (subst bitlen.simps) simp
    ultimately show ?thesis by simp
  qed
qed

lemma round_to_0: "round_to 0 a = a"
  by (simp add: round_to_def)

lemma round_nat_small: "a < 2 ^ 53 \<Longrightarrow> round_nat a = a"
proof -
  assume "a < 2 ^ 53"
  then have "bitlen a \<le> 53" by (rule bitlen_le)
  then show ?thesis by (simp add: round_nat_def round_to_0)
qed

lemma round_nat_pow53: "round_nat (2 ^ 53) = 2 ^ 53"
proof -
  have "53 < bitlen (2 ^ 53)" by (rule bitlen_gt) simp
  moreover have "bitlen (2 ^ 53) \<le> 54" by (rule bitlen_le) simp
  ultimately have "bitlen (2 ^ 53) - 53 = 1" by simp
  then show ?thesis by (simp add: round_nat_def round_to_def)
qed

lemma round_nat_exact: "a \<le> 2 ^ 53 \<Longrightarrow> round_nat a = a"
  using round_nat_small [of a] round_nat_pow53 by (cases "a = 2 ^ 53") simp_all

text \<open>From \<open>2 ^ 53\<close> on, the rounded value keeps at least 53 bits; it is \<open>2 ^ 53\<close> only
  for \<open>2 ^ 53\<close> and \<open>2 ^ 53 + 1\<close>.\<close>

lemma round_to_ge: "(a div 2 ^ e) * 2 ^ e \<le> round_to e a"
  by (simp add: round_to_def)

lemma round_nat_large:
  assumes "2 ^ 53 \<le> a"
  shows "2 ^ 53 \<le> round_nat a" and "2 ^ 53 + 2 \<le> a \<Longrightarrow> 2 ^ 53 < round_nat a"
proof -
  define e where "e = bitlen a - 53"
  from assms have b: "53 < bitlen a" by (rule bitlen_gt)
  then have e: "1 \<le> e" and be: "bitlen a - 1 = 52 + e" by (simp_all add: e_def)
  from assms have "0 < a" by (simp add: order.strict_trans2 [of 0 "2 ^ 53"])
  then have "2 ^ (bitlen a - 1) \<le> a" by (rule bitlen_lower)
  then have "2 ^ 52 * 2 ^ e \<le> a" by (simp only: be power_add)
  then have q: "2 ^ 52 \<le> a div 2 ^ e"
    by (simp add: less_eq_div_iff_mult_less_eq)
  have r: "(a div 2 ^ e) * 2 ^ e \<le> round_nat a"
    unfolding round_nat_def e_def [symmetric] by (rule round_to_ge)
  from e have two: "(2::nat) \<le> 2 ^ e"
    using power_increasing [of 1 e "2::nat"] by simp
  have "(2::nat) ^ 53 = 2 ^ 52 * 2" by simp
  also have "\<dots> \<le> (a div 2 ^ e) * 2 ^ e" using q two by (rule mult_le_mono)
  finally have low: "2 ^ 53 \<le> (a div 2 ^ e) * 2 ^ e" .
  with r show "2 ^ 53 \<le> round_nat a" by simp
  show "2 ^ 53 < round_nat a" if big: "2 ^ 53 + 2 \<le> a"
  proof (cases "e = 1")
    case True
    from big have "2 ^ 52 + 1 \<le> a div 2" by simp
    then have "(2 ^ 52 + 1) * 2 \<le> (a div 2) * 2" by simp
    then have "2 ^ 53 < (a div 2) * 2" by simp
    with r True show ?thesis by simp
  next
    case False
    with e have "2 \<le> e" by simp
    then have four: "(4::nat) \<le> 2 ^ e"
      using power_increasing [of 2 e "2::nat"] by simp
    have "(2::nat) ^ 53 < 2 ^ 52 * 4" by simp
    also have "\<dots> \<le> (a div 2 ^ e) * 2 ^ e" using q four by (rule mult_le_mono)
    finally show ?thesis using r by simp
  qed
qed

lemma bitlen_exact: "a \<le> 2 ^ 53 \<Longrightarrow> \<not> 1024 < bitlen a"
proof -
  assume "a \<le> 2 ^ 53"
  then have "a < 2 ^ 54" by (simp add: order.strict_trans1 [of a "2 ^ 53"])
  then have "bitlen a \<le> 54" by (rule bitlen_le)
  then show ?thesis by simp
qed

lemma to_number_exact: "a \<le> 2 ^ 53 \<Longrightarrow> to_number (int a) = Num (int a)"
  using bitlen_exact [of a] by (simp add: to_number_def Let_def round_nat_exact)

lemma to_number_nat_eq: "to_number (int v) = Num (int a) \<Longrightarrow> round_nat v = a"
  by (simp add: to_number_def Let_def split: if_splits)

lemma reads_as_below:
  assumes "a \<le> 2 ^ 53" and "v \<le> a" and "reads_as v a"
  shows "v = a"
proof -
  from assms(1,2) have "v \<le> 2 ^ 53" by simp
  then have "to_number (int v) = Num (int v)" by (rule to_number_exact)
  with assms(3) show ?thesis by (simp add: reads_as_def)
qed

lemma reads_as_above:
  assumes "a \<le> 2 ^ 53" and "a < v" and "reads_as v a"
  shows "v = 2 ^ 53 + 1"
proof -
  from assms(3) have r: "round_nat v = a"
    by (simp add: reads_as_def to_number_nat_eq)
  show ?thesis
  proof (cases "v \<le> 2 ^ 53")
    case True
    then have "round_nat v = v" by (rule round_nat_exact)
    with r assms(2) show ?thesis by simp
  next
    case False
    then have v: "2 ^ 53 \<le> v" by simp
    show ?thesis
    proof (rule ccontr)
      assume "v \<noteq> 2 ^ 53 + 1"
      with False have "2 ^ 53 + 2 \<le> v" by simp
      with v have "2 ^ 53 < round_nat v" by (rule round_nat_large(2))
      with r assms(1) show False by simp
    qed
  qed
qed

lemma above_gt: "0 < g \<Longrightarrow> a < above g a"
proof -
  assume "0 < g"
  then have "a mod g < g" by simp
  moreover have "a = (a div g) * g + a mod g" by simp
  ultimately show ?thesis unfolding above_def by linarith
qed

lemma below_le: "below g a \<le> a"
  by (simp add: below_def)

lemma above_pow10_mod: "above (10 ^ Suc j) a mod 10 = 0"
  by (simp add: above_def)

lemma pick_exact:
  assumes "a \<le> 2 ^ 53"
  shows "pick (10 ^ Suc j) a a = a"
proof -
  let ?g = "10 ^ Suc j :: nat"
  have g: "0 < ?g" by simp
  have no: "\<not> reads_as (above ?g a) a"
  proof
    assume "reads_as (above ?g a) a"
    with assms above_gt [OF g] have "above ?g a = 2 ^ 53 + 1"
      by (rule reads_as_above)
    then have "above ?g a mod 10 = 3" by simp
    then show False by (simp only: above_pow10_mod)
  qed
  have "below ?g a = a" if "reads_as (below ?g a) a"
    using assms below_le that by (rule reads_as_below)
  with no show ?thesis by (auto simp: pick_def select_def)
qed

lemma shortest_from_exact: "a \<le> 2 ^ 53 \<Longrightarrow> shortest_from j a = a"
proof (induction j)
  case 0
  show ?case by (subst shortest_from.simps) simp
next
  case (Suc j)
  have "shortest_from (Suc j) a = pick (10 ^ Suc j) a (shortest_from j a)"
    by (subst shortest_from.simps) (simp del: power_Suc)
  also have "\<dots> = pick (10 ^ Suc j) a a" using Suc by simp
  also have "\<dots> = a" using Suc.prems by (rule pick_exact)
  finally show ?case .
qed

lemma shortest_exact: "a \<le> 2 ^ 53 \<Longrightarrow> shortest a = a"
  by (simp add: shortest_def shortest_from_exact)

lemma length_digits: "0 < k \<Longrightarrow> a < 10 ^ k \<Longrightarrow> length (digits a) \<le> k"
proof (induction k arbitrary: a)
  case 0
  then show ?case by simp
next
  case (Suc k)
  show ?case
  proof (cases "a < 10")
    case True
    then show ?thesis by (subst digits.simps) simp
  next
    case False
    with Suc.prems have "0 < k" by (cases k) simp_all
    moreover from Suc.prems have "a div 10 < 10 ^ k" by simp
    ultimately have "length (digits (a div 10)) \<le> k" by (rule Suc.IH)
    with False show ?thesis by (subst digits.simps) simp
  qed
qed

lemma nat_toString_exact: "a \<le> 2 ^ 53 \<Longrightarrow> nat_toString a = digits a"
proof -
  assume a: "a \<le> 2 ^ 53"
  have "(2::nat) ^ 53 < 10 ^ 21" by simp
  with a have "a < 10 ^ 21" by (rule order.strict_trans1)
  then have "length (digits a) \<le> 21" by (intro length_digits) simp_all
  with a show ?thesis by (simp add: nat_toString_def shortest_exact layout_def)
qed

lemma number_toString_exact: "a \<le> 2 ^ 53 \<Longrightarrow> number_toString (Num (int a)) = digits a"
  by (simp add: nat_toString_exact)

lemma plus1_exact: "a < 2 ^ 53 \<Longrightarrow> plus1 (Num (int a)) = Num (int (Suc a))"
proof -
  assume "a < 2 ^ 53"
  then have "Suc a \<le> 2 ^ 53" by simp
  then have "to_number (int (Suc a)) = Num (int (Suc a))" by (rule to_number_exact)
  then show ?thesis by (simp add: add.commute)
qed

lemma parseInt_digits: "n \<le> 2 ^ 53 \<Longrightarrow> parseInt (digits n) = Num (int n)"
  by (simp add: parseInt_digits_raw to_number_exact)

lemma small_digits: "digits 1 = ''1''" "digits 2 = ''2''" "digits 3 = ''3''" "digits 4 = ''4''"
  by (simp_all add: digits.simps digit_char_def)

lemma digits_Suc_0: "digits (Suc 0) = ''1''"
  by (simp add: digits.simps digit_char_def)

section \<open>Evaluating \<^verbatim>\<open>parseInt\<close> and \<^verbatim>\<open>toString\<close> on given strings\<close>

lemmas number_eval = to_number_def round_nat_def round_to_def bitlen.simps shortest_def
  shortest_from.simps pick_def select_def reads_as_def below_def above_def strip_zeros_def
  mantissa_def layout_def nat_toString_def digits.simps digit_char_def

lemmas parseInt_eval = parseInt_def is_whitespace_def is_digit_def digit_value_def radix_value_def
  Let_def




lemma parseInt_pow53: "parseInt ''9007199254740992'' = Num 9007199254740992"
  by (simp add: parseInt_eval number_eval)

lemma plus1_pow53: "plus1 (Num 9007199254740992) = Num 9007199254740992"
  by (simp add: number_eval)

lemma number_toString_pow53: "number_toString (Num 9007199254740992) = ''9007199254740992''"
proof -
  have "number_toString (Num (int (2 ^ 53))) = digits (2 ^ 53)"
    by (rule number_toString_exact) simp
  moreover have "digits (2 ^ 53) = ''9007199254740992''"
    by (simp add: digits.simps digit_char_def)
  ultimately show ?thesis by simp
qed




section \<open>Searching and filtering\<close>

lemma findIndex_Some:
  "findIndex P xs = Some k \<Longrightarrow> k < length xs \<and> P (xs ! k) \<and> (\<forall>j<k. \<not> P (xs ! j))"
proof (induction xs arbitrary: k)
  case Nil
  then show ?case by simp
next
  case (Cons x xs)
  show ?case
  proof (cases "P x")
    case True
    with Cons.prems show ?thesis by simp
  next
    case False
    with Cons.prems obtain k' where k': "findIndex P xs = Some k'" "k = Suc k'"
      by auto
    from Cons.IH [OF k'(1)] False k'(2) show ?thesis
      by (auto simp: nth_Cons split: nat.splits)
  qed
qed

lemma findIndex_None: "findIndex P xs = None \<longleftrightarrow> (\<forall>x\<in>set xs. \<not> P x)"
  by (induction xs) auto

lemma findIndex_find:
  "find P xs = (case findIndex P xs of None \<Rightarrow> None | Some k \<Rightarrow> Some (xs ! k))"
  by (induction xs) (auto split: option.splits)

lemma filter_keeps_all: "length (filter P xs) = length xs \<Longrightarrow> filter P xs = xs"
proof -
  assume len: "length (filter P xs) = length xs"
  have "P x" if "x \<in> set xs" for x
  proof (rule ccontr)
    assume "\<not> P x"
    with that have "length (filter P xs) < length xs" by (rule length_filter_less)
    with len show False by simp
  qed
  then show ?thesis by simp
qed

lemma filter_one_out:
  "distinct (map f xs) \<Longrightarrow> x \<in> set xs \<Longrightarrow> length (filter (\<lambda>y. f y \<noteq> f x) xs) + 1 = length xs"
proof (induction xs)
  case Nil
  then show ?case by simp
next
  case (Cons y ys)
  show ?case
  proof (cases "f y = f x")
    case True
    with Cons.prems have "\<forall>z\<in>set ys. f z \<noteq> f x" by (metis distinct.simps(2) image_eqI list.simps(9) set_map)
    then have "filter (\<lambda>z. f z \<noteq> f x) ys = ys" by simp
    with True show ?thesis by simp
  next
    case False
    with Cons.prems have "x \<in> set ys" by auto
    with Cons False show ?thesis by simp
  qed
qed

lemma find_filter_out: "find P (filter (\<lambda>x. \<not> P x) xs) = None"
  by (simp add: find_None_iff)

lemma strictly_sorted_le_last:
  "sorted_wrt (<) (ns :: nat list) \<Longrightarrow> n \<in> set ns \<Longrightarrow> n \<le> last ns"
proof (induction ns rule: rev_induct)
  case Nil
  then show ?case by simp
next
  case (snoc x xs)
  then show ?case by (auto simp: sorted_wrt_append intro: less_imp_le)
qed

section \<open>Facts about the handlers\<close>

lemma generateNewId_string:
  assumes "books \<noteq> []" and "last books ''id'' = Some (JStr s)"
  shows "generateNewId books = Inr (number_toString (plus1 (parseInt s)))"
  using assms by (simp add: generateNewId_def last_conv_nth)

lemma generateNewId_digits:
  assumes "books \<noteq> []" and "last books ''id'' = Some (JStr (digits n))" and "n < 2 ^ 53"
  shows "generateNewId books = Inr (digits (Suc n))"
proof -
  from assms(3) have "parseInt (digits n) = Num (int n)" by (simp add: parseInt_digits)
  moreover from assms(3) have "plus1 (Num (int n)) = Num (int (Suc n))" by (rule plus1_exact)
  moreover from assms(3) have "number_toString (Num (int (Suc n))) = digits (Suc n)"
    by (intro number_toString_exact) simp
  ultimately have "number_toString (plus1 (parseInt (digits n))) = digits (Suc n)"
    by (simp only:)
  with generateNewId_string [OF assms(1,2)] show ?thesis by (simp only:)
qed

lemma post_book_complete:
  assumes "complete body" and "generateNewId books = Inr s"
  shows "post_book body books =
    (books @ [(Map.empty(''id'' \<mapsto> JStr s))
                (''title'' := body ''title'', ''author'' := body ''author'', ''year'' := body ''year'')],
     Inr \<lparr>code = 201, status = ''success'', message = ''Book added successfully'',
          data = OneBook ((Map.empty(''id'' \<mapsto> JStr s))
                (''title'' := body ''title'', ''author'' := body ''author'', ''year'' := body ''year''))\<rparr>)"
  using assms by (simp add: post_book_def complete_def Let_def)



lemma post_book_throws:
  assumes "complete body" and "generateNewId books = Inl e"
  shows "post_book body books = (books, Inl e)"
  using assms by (simp add: post_book_def complete_def Let_def)

lemma patched_seed:
  "run [Patch ''1'' [''genre'' \<mapsto> JStr ''fantasy'']] =
     [(seed ! 0)(''genre'' \<mapsto> JStr ''fantasy''), seed ! 1]"
  by (simp add: run_def patch_book_def Let_def seed_def id_is_def)

lemma run_Nil: "run [] = seed"
  by (simp add: run_def)

lemma run_snoc: "run (rs @ [r]) = fst (handle r (run rs))"
  by (simp add: run_def)

lemma ids_update_same:
  assumes "k < length books" and "b ''id'' = (books ! k) ''id''"
  shows "ids (books[k := b]) = ids books"
  using assms by (simp add: ids_def map_update list_update_same_conv)


section \<open>Ascending ids\<close>

text \<open>The seed state has ascending ids, and every request that is not a partial update of
  an id keeps them ascending; the bound grows by at most one with each request.\<close>


lemma ascending_ids_seed: "ascending_ids 2 seed"
proof -
  have "sorted_wrt (<) [1, 2 :: nat]" by simp
  moreover have "\<forall>n\<in>set [1, 2 :: nat]. n \<le> 2" by simp
  moreover have "ids seed = map (\<lambda>n. Some (JStr (digits n))) [1, 2]"
    by (simp add: ids_def seed_def small_digits digits_Suc_0)
  ultimately show ?thesis unfolding ascending_ids_def by blast
qed

lemma ascending_ids_mono: "ascending_ids m books \<Longrightarrow> m \<le> m' \<Longrightarrow> ascending_ids m' books"
  unfolding ascending_ids_def by (meson le_trans)

lemma ascending_ids_Suc: "ascending_ids m books \<Longrightarrow> ascending_ids (Suc m) books"
  using ascending_ids_mono [of m books "Suc m"] by simp

lemma ascending_ids_distinct: "ascending_ids m books \<Longrightarrow> distinct (ids books)"
proof -
  assume "ascending_ids m books"
  then obtain ns where ns: "sorted_wrt (<) ns" "ids books = map (\<lambda>n. Some (JStr (digits n))) ns"
    unfolding ascending_ids_def by blast
  from ns(1) have "distinct ns" by (simp add: strict_sorted_iff)
  moreover have "inj_on (\<lambda>n. Some (JStr (digits n))) (set ns)"
    by (rule inj_onI) (simp add: digits_inj)
  ultimately show ?thesis using ns(2) by (simp add: distinct_map)
qed

lemma ascending_ids_same_ids:
  "ascending_ids m books \<Longrightarrow> ids books' = ids books \<Longrightarrow> ascending_ids m books'"
  by (simp add: ascending_ids_def)

lemma ascending_ids_create:
  assumes a: "ascending_ids m books" and c: "complete body" and m: "m < 2 ^ 53"
  shows "\<exists>nb n. post_book body books =
           (books @ [nb], Inr \<lparr>code = 201, status = ''success'',
              message = ''Book added successfully'', data = OneBook nb\<rparr>)
         \<and> nb ''id'' = Some (JStr (digits n)) \<and> nb ''id'' \<notin> set (ids books)
         \<and> n \<le> Suc m \<and> ascending_ids (Suc m) (books @ [nb])"
proof -
  from a obtain ns where ns: "sorted_wrt (<) ns" "\<forall>n\<in>set ns. n \<le> m"
      "ids books = map (\<lambda>n. Some (JStr (digits n))) ns"
    unfolding ascending_ids_def by blast
  from ns(3) have len: "length ns = length books"
    by (metis ids_def length_map)
  define n where "n = (if ns = [] then 1 else Suc (last ns))"
  have gen: "generateNewId books = Inr (digits n)"
  proof (cases "ns = []")
    case True
    with len show ?thesis by (simp add: generateNewId_def n_def digits_Suc_0)
  next
    case False
    with len have ne: "books \<noteq> []" by auto
    then have "last books ''id'' = last (ids books)"
      by (simp add: ids_def last_map)
    also have "\<dots> = Some (JStr (digits (last ns)))"
      using False by (simp add: ns(3) last_map)
    finally have l: "last books ''id'' = Some (JStr (digits (last ns)))" .
    from False have "last ns \<in> set ns" by simp
    with ns(2) m have "last ns < 2 ^ 53" by (metis order.strict_trans1)
    with ne l have "generateNewId books = Inr (digits (Suc (last ns)))"
      by (rule generateNewId_digits)
    with False show ?thesis by (simp add: n_def)
  qed
  let ?nb = "(Map.empty(''id'' \<mapsto> JStr (digits n)))
                (''title'' := body ''title'', ''author'' := body ''author'', ''year'' := body ''year'')"
  note post = post_book_complete [OF c gen]
  have idnb: "?nb ''id'' = Some (JStr (digits n))" by simp
  have above: "\<forall>k\<in>set ns. k < n"
  proof
    fix k assume k: "k \<in> set ns"
    then have "ns \<noteq> []" by auto
    with k ns(1) show "k < n" by (auto simp: n_def dest: strictly_sorted_le_last)
  qed
  have fresh: "?nb ''id'' \<notin> set (ids books)"
  proof
    assume "?nb ''id'' \<in> set (ids books)"
    then obtain k where "k \<in> set ns" "digits k = digits n"
      by (auto simp: ns(3))
    with above show False by (auto dest: digits_inj)
  qed
  have bound: "n \<le> Suc m"
  proof (cases "ns = []")
    case True
    then show ?thesis by (simp add: n_def)
  next
    case False
    then have "last ns \<in> set ns" by simp
    with ns(2) False show ?thesis by (auto simp: n_def)
  qed
  have "sorted_wrt (<) (ns @ [n])"
    using ns(1) above by (simp add: sorted_wrt_append)
  moreover have "\<forall>k\<in>set (ns @ [n]). k \<le> Suc m"
    using ns(2) bound by auto
  moreover have "ids (books @ [?nb]) = map (\<lambda>n. Some (JStr (digits n))) (ns @ [n])"
    using ns(3) by (simp add: ids_def)
  ultimately have "ascending_ids (Suc m) (books @ [?nb])"
    unfolding ascending_ids_def by blast
  with post idnb fresh bound show ?thesis by blast
qed

lemma ascending_ids_step:
  assumes a: "ascending_ids m books" and r: "\<not> patches_id r" and m: "m < 2 ^ 53"
  shows "ascending_ids (Suc m) (fst (handle r books))"
proof (cases r)
  case List
  then have "fst (handle r books) = books" by (simp add: get_books_def)
  with a show ?thesis by (simp add: ascending_ids_Suc)
next
  case (Get i)
  then have "fst (handle r books) = books" by (simp add: get_book_def split: option.splits)
  with a show ?thesis by (simp add: ascending_ids_Suc)
next
  case (Create body)
  show ?thesis
  proof (cases "complete body")
    case True
    from ascending_ids_create [OF a True m] obtain nb where
      "post_book body books = (books @ [nb], Inr \<lparr>code = 201, status = ''success'',
              message = ''Book added successfully'', data = OneBook nb\<rparr>)"
      "ascending_ids (Suc m) (books @ [nb])"
      by blast
    with Create show ?thesis by simp
  next
    case False
    then have "fst (post_book body books) = books"
      by (auto simp: post_book_def complete_def Let_def)
    with a Create show ?thesis by (simp add: ascending_ids_Suc)
  qed
next
  case (Put i body)
  show ?thesis
  proof (cases "findIndex (id_is i) books")
    case None
    then have "fst (put_book i body books) = books" by (simp add: put_book_def Let_def)
    with a Put show ?thesis by (simp add: ascending_ids_Suc)
  next
    case (Some k)
    then have k: "k < length books" using findIndex_Some by blast
    let ?b = "(books ! k)(''title'' := body ''title'', ''author'' := body ''author'', ''year'' := body ''year'')"
    have "ids (books[k := ?b]) = ids books"
      using k by (rule ids_update_same) simp
    with a have "ascending_ids m (books[k := ?b])"
      by (rule ascending_ids_same_ids)
    then have upd: "ascending_ids (Suc m) (books[k := ?b])"
      by (rule ascending_ids_Suc)
    have "fst (put_book i body books) = books \<or> fst (put_book i body books) = books[k := ?b]"
      using Some by (simp add: put_book_def Let_def)
    with a upd Put show ?thesis by (auto simp: ascending_ids_Suc)
  qed
next
  case (Patch i body)
  with r have noid: "body ''id'' = None" by simp
  show ?thesis
  proof (cases "findIndex (id_is i) books")
    case None
    then have "fst (patch_book i body books) = books" by (simp add: patch_book_def)
    with a Patch show ?thesis by (simp add: ascending_ids_Suc)
  next
    case (Some k)
    then have k: "k < length books" using findIndex_Some by blast
    have "ids (books[k := books ! k ++ body]) = ids books"
      using k by (rule ids_update_same) (simp add: map_add_def noid)
    with a have "ascending_ids m (books[k := books ! k ++ body])"
      by (rule ascending_ids_same_ids)
    then have "ascending_ids (Suc m) (books[k := books ! k ++ body])"
      by (rule ascending_ids_Suc)
    with Patch Some show ?thesis
      by (simp add: patch_book_def Let_def)
  qed
next
  case (Delete i)
  from a obtain ns where ns: "sorted_wrt (<) ns" "\<forall>n\<in>set ns. n \<le> m"
      "ids books = map (\<lambda>n. Some (JStr (digits n))) ns"
    unfolding ascending_ids_def by blast
  let ?keep = "\<lambda>x. x \<noteq> Some (JStr i)"
  let ?ns' = "filter (?keep \<circ> (\<lambda>n. Some (JStr (digits n)))) ns"
  have "ids (filter (\<lambda>b. \<not> id_is i b) books) = filter ?keep (ids books)"
    by (simp add: ids_def filter_map id_is_def comp_def)
  also have "\<dots> = map (\<lambda>n. Some (JStr (digits n))) ?ns'"
    unfolding ns(3) by (rule filter_map)
  finally have "ids (filter (\<lambda>b. \<not> id_is i b) books) = map (\<lambda>n. Some (JStr (digits n))) ?ns'" .
  moreover have "sorted_wrt (<) ?ns'" using ns(1) by (rule sorted_wrt_filter)
  moreover have "\<forall>n\<in>set ?ns'. n \<le> Suc m" using ns(2) by auto
  ultimately have "ascending_ids (Suc m) (filter (\<lambda>b. \<not> id_is i b) books)"
    unfolding ascending_ids_def by blast
  with Delete show ?thesis by (simp add: delete_book_def Let_def)
qed

lemma ascending_ids_run:
  "\<forall>r\<in>set rs. \<not> patches_id r \<Longrightarrow> length rs + 2 \<le> 2 ^ 53
    \<Longrightarrow> ascending_ids (length rs + 2) (run rs)"
proof (induction rs rule: rev_induct)
  case Nil
  from ascending_ids_seed show ?case by (simp add: run_Nil numeral_2_eq_2)
next
  case (snoc r rs)
  from snoc.prems(2) have m: "length rs + 2 < 2 ^ 53" by simp
  with snoc have "ascending_ids (length rs + 2) (run rs)" and "\<not> patches_id r" by simp_all
  then have "ascending_ids (Suc (length rs + 2)) (fst (handle r (run rs)))"
    using m by (rule ascending_ids_step)
  then show ?case by (simp add: run_snoc)
qed

section \<open>The claims\<close>



text \<open>The specification says that a string is returned, and that it is the id plus 1. After
  \<^verbatim>\<open>PATCH /books/2 {"id":{"toString":1}}\<close> the call throws; after
  \<^verbatim>\<open>PATCH /books/2 {"id":"9007199254740992"}\<close> it returns the same numeral again,
  since \<open>2 ^ 53 + 1\<close> is no double.\<close>

theorem generateNewId_throws_or_rounds_counterexample:
  "generateNewId (run [Patch ''2'' [''id'' \<mapsto> JObj [''toString'' \<mapsto> JNum 1]]]) = Inl TypeError
   \<and> generateNewId (run [Patch ''2'' [''id'' \<mapsto> JStr ''9007199254740992'']])
       = Inr ''9007199254740992''"
proof -
  have 1: "run [Patch ''2'' [''id'' \<mapsto> JObj [''toString'' \<mapsto> JNum 1]]] =
      [seed ! 0, (seed ! 1)(''id'' \<mapsto> JObj [''toString'' \<mapsto> JNum 1])]"
    by (simp add: run_def patch_book_def Let_def seed_def id_is_def)
  have 2: "run [Patch ''2'' [''id'' \<mapsto> JStr ''9007199254740992'']] =
      [seed ! 0, (seed ! 1)(''id'' \<mapsto> JStr ''9007199254740992'')]"
    by (simp add: run_def patch_book_def Let_def seed_def id_is_def)
  have "generateNewId [seed ! 0, (seed ! 1)(''id'' \<mapsto> JObj [''toString'' \<mapsto> JNum 1])] = Inl TypeError"
    by (simp add: generateNewId_def)
  moreover have "number_toString (plus1 (parseInt ''9007199254740992'')) = ''9007199254740992''"
    unfolding parseInt_pow53 plus1_pow53 number_toString_pow53 by (rule refl)
  then have "generateNewId [seed ! 0, (seed ! 1)(''id'' \<mapsto> JStr ''9007199254740992'')]
      = Inr ''9007199254740992''"
    using generateNewId_string [of "[seed ! 0, (seed ! 1)(''id'' \<mapsto> JStr ''9007199254740992'')]"
        "''9007199254740992''"]
    by simp
  ultimately show ?thesis by (simp only: 1 2)
qed

text \<open>
  \<^bold>\<open>C2.\<close> Uniqueness of ids, in the form in which it holds: after any sequence of
  fewer than \<open>2 ^ 53 - 2\<close> requests from the seed state, none of them a partial update
  whose body has a property \<^verbatim>\<open>id\<close>, the ids of the records are pairwise distinct. The bound keeps every id that create computes below
  \<open>2 ^ 53\<close>, where the source's arithmetic is exact.
\<close>

theorem ids_distinct_without_id_patch:
  assumes "\<forall>r\<in>set rs. \<not> patches_id r" and "length rs < 2 ^ 53 - 2"
  shows "distinct (ids (run rs))"
proof -
  from assms(2) have "length rs + 2 \<le> 2 ^ 53" by simp
  with assms(1) have "ascending_ids (length rs + 2) (run rs)"
    by (rule ascending_ids_run)
  then show ?thesis by (rule ascending_ids_distinct)
qed

theorem ids_distinct_witness:
  "length [Create dune, Delete ''1'', Put ''2'' xy, Patch ''3'' dune, Create xy] < 2 ^ 53 - 2
   \<and> distinct (ids (run [Create dune, Delete ''1'', Put ''2'' xy, Patch ''3'' dune, Create xy]))"
proof -
  let ?rs = "[Create dune, Delete ''1'', Put ''2'' xy, Patch ''3'' dune, Create xy]"
  have 1: "\<forall>r\<in>set ?rs. \<not> patches_id r" by (simp add: dune_def)
  have 2: "length ?rs < 2 ^ 53 - 2" by simp
  from ids_distinct_without_id_patch [OF 1 2] 2 show ?thesis by blast
qed

text \<open>The specification states uniqueness for every sequence of requests. A partial
  update may overwrite an id: from the seed state, \<^verbatim>\<open>PATCH /books/1 {"id":"2"}\<close> leaves two records
  with id \<^verbatim>\<open>"2"\<close>.\<close>

theorem patch_duplicates_id_counterexample:
  "ids (run [Patch ''1'' [''id'' \<mapsto> JStr ''2'']]) = [Some (JStr ''2''), Some (JStr ''2'')]
   \<and> \<not> distinct (ids (run [Patch ''1'' [''id'' \<mapsto> JStr ''2'']]))"
proof -
  have "ids (run [Patch ''1'' [''id'' \<mapsto> JStr ''2'']]) = [Some (JStr ''2''), Some (JStr ''2'')]"
    by (simp add: run_def patch_book_def Let_def seed_def id_is_def ids_def)
  then show ?thesis by simp
qed

text \<open>
  \<^bold>\<open>C3.\<close> Create with a complete body, in the form in which the specification's sentence
  holds. In every state in which \<^verbatim>\<open>generateNewId\<close> returns, the answer is 201 and
  exactly one record, with the new id, is appended; when \<^verbatim>\<open>generateNewId\<close> throws, so
  does the handler, and nothing is appended. In the state after any sequence of fewer than
  \<open>2 ^ 53 - 2\<close> requests from the seed state, none of them a partial update whose body has
  a property \<^verbatim>\<open>id\<close>, the new id differs from the id of every record already there.
\<close>

theorem create_assigns_fresh_id:
  "(complete body \<and> generateNewId books = Inr newId \<longrightarrow>
      (\<exists>nb. post_book body books =
              (books @ [nb], Inr \<lparr>code = 201, status = ''success'',
                 message = ''Book added successfully'', data = OneBook nb\<rparr>)
            \<and> nb ''id'' = Some (JStr newId)
            \<and> length (fst (post_book body books)) = length books + 1))
   \<and> (complete body \<and> generateNewId books = Inl e \<longrightarrow>
        post_book body books = (books, Inl e))
   \<and> (complete body \<and> (\<forall>r\<in>set rs. \<not> patches_id r) \<and> length rs < 2 ^ 53 - 2 \<longrightarrow>
        (\<exists>nb. post_book body (run rs) =
                (run rs @ [nb], Inr \<lparr>code = 201, status = ''success'',
                   message = ''Book added successfully'', data = OneBook nb\<rparr>)
              \<and> nb ''id'' \<notin> set (ids (run rs))
              \<and> length (fst (post_book body (run rs))) = length (run rs) + 1))"
proof -
  have appended: "\<exists>nb. post_book body books =
              (books @ [nb], Inr \<lparr>code = 201, status = ''success'',
                 message = ''Book added successfully'', data = OneBook nb\<rparr>)
            \<and> nb ''id'' = Some (JStr newId)
            \<and> length (fst (post_book body books)) = length books + 1"
    if "complete body" "generateNewId books = Inr newId"
  proof -
    let ?nb = "(Map.empty(''id'' \<mapsto> JStr newId))
                (''title'' := body ''title'', ''author'' := body ''author'', ''year'' := body ''year'')"
    note p = post_book_complete [OF that]
    have "?nb ''id'' = Some (JStr newId)" by simp
    moreover from p have "length (fst (post_book body books)) = length books + 1" by simp
    ultimately show ?thesis using p by blast
  qed
  have thrown: "post_book body books = (books, Inl e)"
    if "complete body" "generateNewId books = Inl e"
    using that by (rule post_book_throws)
  have fresh: "\<exists>nb. post_book body (run rs) =
                (run rs @ [nb], Inr \<lparr>code = 201, status = ''success'',
                   message = ''Book added successfully'', data = OneBook nb\<rparr>)
              \<and> nb ''id'' \<notin> set (ids (run rs))
              \<and> length (fst (post_book body (run rs))) = length (run rs) + 1"
    if c: "complete body" and r: "\<forall>r\<in>set rs. \<not> patches_id r" and l: "length rs < 2 ^ 53 - 2"
  proof -
    from l have m: "length rs + 2 < 2 ^ 53" by simp
    then have "length rs + 2 \<le> 2 ^ 53" by simp
    with r have "ascending_ids (length rs + 2) (run rs)"
      by (rule ascending_ids_run)
    from ascending_ids_create [OF this c m] obtain nb where
      nb: "post_book body (run rs) =
             (run rs @ [nb], Inr \<lparr>code = 201, status = ''success'',
                message = ''Book added successfully'', data = OneBook nb\<rparr>)"
          "nb ''id'' \<notin> set (ids (run rs))"
      by blast
    from nb(1) have "length (fst (post_book body (run rs))) = length (run rs) + 1" by simp
    with nb show ?thesis by blast
  qed
  from appended thrown fresh show ?thesis by blast
qed

theorem create_assigns_fresh_id_witness:
  "complete dune \<and> generateNewId seed = Inr ''3'' \<and> length [Delete ''1''] < 2 ^ 53 - 2
   \<and> generateNewId (run [Patch ''2'' [''id'' \<mapsto> JObj [''toString'' \<mapsto> JNum 1]]]) = Inl TypeError
   \<and> length (fst (post_book dune seed)) = length seed + 1
   \<and> fst (post_book dune (run [Patch ''2'' [''id'' \<mapsto> JObj [''toString'' \<mapsto> JNum 1]]]))
       = run [Patch ''2'' [''id'' \<mapsto> JObj [''toString'' \<mapsto> JNum 1]]]
   \<and> (\<exists>nb. post_book dune (run [Delete ''1'']) =
           (run [Delete ''1''] @ [nb], Inr \<lparr>code = 201, status = ''success'',
              message = ''Book added successfully'', data = OneBook nb\<rparr>)
         \<and> nb ''id'' \<notin> set (ids (run [Delete ''1''])))"
proof -
  let ?t = "run [Patch ''2'' [''id'' \<mapsto> JObj [''toString'' \<mapsto> JNum 1]]]"
  have c: "complete dune" by (simp add: complete_def dune_def)
  have g: "generateNewId seed = Inr ''3''"
    using generateNewId_digits [of seed 2] by (simp add: seed_def small_digits)
  have 1: "\<forall>r\<in>set [Delete ''1'']. \<not> patches_id r" by simp
  have 2: "length [Delete ''1''] < 2 ^ 53 - 2" by simp
  have "?t = [seed ! 0, (seed ! 1)(''id'' \<mapsto> JObj [''toString'' \<mapsto> JNum 1])]"
    by (simp add: run_def patch_book_def Let_def seed_def id_is_def)
  then have t: "generateNewId ?t = Inl TypeError"
    by (simp add: generateNewId_def)
  from create_assigns_fresh_id [of dune seed "''3''" TypeError "[Delete ''1'']"] c g 1 2
  have a: "length (fst (post_book dune seed)) = length seed + 1"
    and b: "\<exists>nb. post_book dune (run [Delete ''1'']) =
           (run [Delete ''1''] @ [nb], Inr \<lparr>code = 201, status = ''success'',
              message = ''Book added successfully'', data = OneBook nb\<rparr>)
         \<and> nb ''id'' \<notin> set (ids (run [Delete ''1'']))"
    by blast+
  from create_assigns_fresh_id [of dune ?t "''3''" TypeError "[]"] c t
  have "fst (post_book dune ?t) = ?t" by simp
  with c g 2 t a b show ?thesis by blast
qed

text \<open>The specification states both halves for every reachable state. After
  \<^verbatim>\<open>PATCH /books/2 {"id":"0"}\<close> the last record has id \<^verbatim>\<open>"0"\<close>, so the next create is
  given id \<^verbatim>\<open>"1"\<close>, the id of the first record. After
  \<^verbatim>\<open>PATCH /books/2 {"id":{"toString":1}}\<close> the next create throws and the collection keeps
  its length.\<close>

theorem create_reuses_id_counterexample:
  "complete dune
   \<and> ids (run [Patch ''2'' [''id'' \<mapsto> JStr ''0'']]) = [Some (JStr ''1''), Some (JStr ''0'')]
   \<and> snd (post_book dune (run [Patch ''2'' [''id'' \<mapsto> JStr ''0'']])) =
       Inr \<lparr>code = 201, status = ''success'', message = ''Book added successfully'',
            data = OneBook [''id'' \<mapsto> JStr ''1'', ''title'' \<mapsto> JStr ''Dune'',
                            ''author'' \<mapsto> JStr ''Herbert'', ''year'' \<mapsto> JNum 1965]\<rparr>
   \<and> ids (fst (post_book dune (run [Patch ''2'' [''id'' \<mapsto> JStr ''0'']])))
       = [Some (JStr ''1''), Some (JStr ''0''), Some (JStr ''1'')]
   \<and> post_book dune (run [Patch ''2'' [''id'' \<mapsto> JObj [''toString'' \<mapsto> JNum 1]]])
       = (run [Patch ''2'' [''id'' \<mapsto> JObj [''toString'' \<mapsto> JNum 1]]], Inl TypeError)
   \<and> length (fst (post_book dune (run [Patch ''2'' [''id'' \<mapsto> JObj [''toString'' \<mapsto> JNum 1]]])))
       = length (run [Patch ''2'' [''id'' \<mapsto> JObj [''toString'' \<mapsto> JNum 1]]])"
proof -
  let ?s = "run [Patch ''2'' [''id'' \<mapsto> JStr ''0'']]"
  let ?t = "run [Patch ''2'' [''id'' \<mapsto> JObj [''toString'' \<mapsto> JNum 1]]]"
  have c: "complete dune" by (simp add: complete_def dune_def)
  have s: "?s = [seed ! 0, (seed ! 1)(''id'' \<mapsto> JStr ''0'')]"
    by (simp add: run_def patch_book_def Let_def seed_def id_is_def)
  have i: "ids ?s = [Some (JStr ''1''), Some (JStr ''0'')]"
    unfolding s by (simp add: ids_def seed_def)
  have "digits 0 = ''0''" by (simp add: digits.simps digit_char_def)
  then have g: "generateNewId ?s = Inr ''1''"
    unfolding s using generateNewId_digits [of "[seed ! 0, (seed ! 1)(''id'' \<mapsto> JStr ''0'')]" 0]
    by (simp add: digits_Suc_0)
  note p = post_book_complete [OF c g]
  have 1: "snd (post_book dune ?s) =
       Inr \<lparr>code = 201, status = ''success'', message = ''Book added successfully'',
            data = OneBook [''id'' \<mapsto> JStr ''1'', ''title'' \<mapsto> JStr ''Dune'',
                            ''author'' \<mapsto> JStr ''Herbert'', ''year'' \<mapsto> JNum 1965]\<rparr>"
    unfolding p by (simp add: dune_def)
  have 2: "ids (fst (post_book dune ?s)) = [Some (JStr ''1''), Some (JStr ''0''), Some (JStr ''1'')]"
    unfolding p using i by (simp add: ids_def)
  have "?t = [seed ! 0, (seed ! 1)(''id'' \<mapsto> JObj [''toString'' \<mapsto> JNum 1])]"
    by (simp add: run_def patch_book_def Let_def seed_def id_is_def)
  then have "generateNewId ?t = Inl TypeError"
    by (simp add: generateNewId_def)
  with c have 3: "post_book dune ?t = (?t, Inl TypeError)" by (rule post_book_throws)
  then have 4: "length (fst (post_book dune ?t)) = length ?t" by simp
  from c i 1 2 3 4 show ?thesis by blast
qed

text \<open>
  \<^bold>\<open>C4.\<close> Full update, in the form in which it holds. The id is present, \<open>k\<close>
  being the position of the first record with that id: if the body is not complete the collection is unchanged
  and the answer is 400 with status \<^verbatim>\<open>fail\<close>; otherwise the record at \<open>k\<close> keeps its id,
  takes title, author and year from the body and keeps every other property it had, so it
  consists of exactly the four properties when it had no others before. An id that is
  absent is answered 404 whatever the body is.
\<close>

theorem put_book_full_update:
  "(findIndex (id_is i) books = Some k \<and> \<not> complete body \<longrightarrow>
      put_book i body books =
        (books, Inr \<lparr>code = 400, status = ''fail'',
           message = ''Title, author, and year are required for a complete update'',
           data = NoData\<rparr>))
   \<and> (findIndex (id_is i) books = Some k \<and> complete body \<longrightarrow>
        (\<exists>b. put_book i body books =
               (books[k := b], Inr \<lparr>code = 200, status = ''success'',
                  message = ''Book with id '' @ i @ '' updated successfully (full update)'',
                  data = OneBook b\<rparr>)
            \<and> b ''id'' = Some (JStr i)
            \<and> b ''title'' = body ''title'' \<and> b ''author'' = body ''author'' \<and> b ''year'' = body ''year''
            \<and> (\<forall>f. f \<notin> {''id'', ''title'', ''author'', ''year''} \<longrightarrow> b f = (books ! k) f)
            \<and> (dom (books ! k) \<subseteq> {''id'', ''title'', ''author'', ''year''} \<longrightarrow>
                 dom b = {''id'', ''title'', ''author'', ''year''})))
   \<and> ((\<forall>b\<in>set books. \<not> id_is i b) \<longrightarrow>
        put_book i body books =
          (books, Inr \<lparr>code = 404, status = ''fail'',
             message = ''Book with id '' @ i @ '' not found'', data = NoData\<rparr>))"
proof -
  have bad: "put_book i body books =
        (books, Inr \<lparr>code = 400, status = ''fail'',
           message = ''Title, author, and year are required for a complete update'',
           data = NoData\<rparr>)"
    if "findIndex (id_is i) books = Some k" "\<not> complete body"
    using that by (auto simp: put_book_def complete_def Let_def)
  have absent: "put_book i body books =
          (books, Inr \<lparr>code = 404, status = ''fail'',
             message = ''Book with id '' @ i @ '' not found'', data = NoData\<rparr>)"
    if "\<forall>b\<in>set books. \<not> id_is i b"
  proof -
    from that have "findIndex (id_is i) books = None" by (simp add: findIndex_None)
    then show ?thesis by (simp add: put_book_def Let_def)
  qed
  have good: "\<exists>b. put_book i body books =
               (books[k := b], Inr \<lparr>code = 200, status = ''success'',
                  message = ''Book with id '' @ i @ '' updated successfully (full update)'',
                  data = OneBook b\<rparr>)
            \<and> b ''id'' = Some (JStr i)
            \<and> b ''title'' = body ''title'' \<and> b ''author'' = body ''author'' \<and> b ''year'' = body ''year''
            \<and> (\<forall>f. f \<notin> {''id'', ''title'', ''author'', ''year''} \<longrightarrow> b f = (books ! k) f)
            \<and> (dom (books ! k) \<subseteq> {''id'', ''title'', ''author'', ''year''} \<longrightarrow>
                 dom b = {''id'', ''title'', ''author'', ''year''})"
    if f: "findIndex (id_is i) books = Some k" and c: "complete body"
  proof -
    from f have k: "k < length books" and old: "(books ! k) ''id'' = Some (JStr i)"
      using findIndex_Some [OF f] by (simp_all add: id_is_def)
    let ?b = "(books ! k)(''title'' := body ''title'', ''author'' := body ''author'', ''year'' := body ''year'')"
    from c obtain t a y where tay: "body ''title'' = Some t" "body ''author'' = Some a" "body ''year'' = Some y"
      unfolding complete_def by (metis truthy.simps(1) option.exhaust)
    have 1: "put_book i body books =
               (books[k := ?b], Inr \<lparr>code = 200, status = ''success'',
                  message = ''Book with id '' @ i @ '' updated successfully (full update)'',
                  data = OneBook ?b\<rparr>)"
      using f c k by (simp add: put_book_def complete_def Let_def)
    have 2: "?b ''id'' = Some (JStr i)" using old by simp
    have 3: "?b ''title'' = body ''title'' \<and> ?b ''author'' = body ''author'' \<and> ?b ''year'' = body ''year''"
      by simp
    have 4: "\<forall>f. f \<notin> {''id'', ''title'', ''author'', ''year''} \<longrightarrow> ?b f = (books ! k) f"
      by simp
    have 5: "dom ?b = {''id'', ''title'', ''author'', ''year''}"
      if "dom (books ! k) \<subseteq> {''id'', ''title'', ''author'', ''year''}"
    proof -
      have "dom ?b = insert ''title'' (insert ''author'' (insert ''year'' (dom (books ! k))))"
        by (auto simp: tay split: if_splits)
      moreover have "''id'' \<in> dom (books ! k)" using old by blast
      ultimately show ?thesis using that by blast
    qed
    from 1 2 3 4 5 show ?thesis by blast
  qed
  from bad good absent show ?thesis by blast
qed

theorem put_book_full_update_witness:
  "findIndex (id_is ''2'') seed = Some 1 \<and> complete dune \<and> \<not> complete Map.empty
   \<and> findIndex (id_is ''999'') seed = None
   \<and> (\<exists>b. fst (put_book ''2'' dune seed) = seed[1 := b]
          \<and> dom b = {''id'', ''title'', ''author'', ''year''})
   \<and> fst (put_book ''2'' Map.empty seed) = seed
   \<and> fst (put_book ''999'' dune seed) = seed"
proof -
  have f: "findIndex (id_is ''2'') seed = Some 1"
    by (simp add: seed_def id_is_def)
  have c: "complete dune" "\<not> complete Map.empty"
    by (simp_all add: complete_def dune_def)
  have d: "dom (seed ! 1) \<subseteq> {''id'', ''title'', ''author'', ''year''}"
    by (simp add: seed_def)
  have a: "\<forall>b\<in>set seed. \<not> id_is ''999'' b"
    by (simp add: seed_def id_is_def)
  have "\<exists>b. fst (put_book ''2'' dune seed) = seed[1 := b]
          \<and> dom b = {''id'', ''title'', ''author'', ''year''}"
    using put_book_full_update [of "''2''" seed 1 dune] f c(1) d by force
  moreover have "fst (put_book ''2'' Map.empty seed) = seed"
    using put_book_full_update [of "''2''" seed 1 Map.empty] f c(2) by simp
  moreover have "fst (put_book ''999'' dune seed) = seed"
    using put_book_full_update [of "''999''" seed 0 dune] a by simp
  moreover have "findIndex (id_is ''999'') seed = None"
    using a by (simp add: findIndex_None)
  ultimately show ?thesis using f c by blast
qed

text \<open>The specification asks for exactly four properties after every full update.
  A record that a partial update gave a fifth property keeps it.\<close>

theorem put_book_extra_field_counterexample:
  "complete dune
   \<and> findIndex (id_is ''1'') (run [Patch ''1'' [''genre'' \<mapsto> JStr ''fantasy'']]) = Some 0
   \<and> (fst (put_book ''1'' dune (run [Patch ''1'' [''genre'' \<mapsto> JStr ''fantasy'']])) ! 0) ''genre''
       = Some (JStr ''fantasy'')
   \<and> dom (fst (put_book ''1'' dune (run [Patch ''1'' [''genre'' \<mapsto> JStr ''fantasy'']])) ! 0)
       \<noteq> {''id'', ''title'', ''author'', ''year''}"
proof -
  let ?s = "run [Patch ''1'' [''genre'' \<mapsto> JStr ''fantasy'']]"
  have c: "complete dune"
    by (simp add: complete_def dune_def)
  have h: "findIndex (id_is ''1'') ?s = Some 0"
    by (simp add: patched_seed) (simp add: seed_def id_is_def)
  have g: "(fst (put_book ''1'' dune ?s) ! 0) ''genre'' = Some (JStr ''fantasy'')"
    using c h by (simp add: put_book_def Let_def) (simp add: patched_seed)
  then have "''genre'' \<in> dom (fst (put_book ''1'' dune ?s) ! 0)" by blast
  moreover have "''genre'' \<notin> {''id'', ''title'', ''author'', ''year''}" by simp
  ultimately have "dom (fst (put_book ''1'' dune ?s) ! 0) \<noteq> {''id'', ''title'', ''author'', ''year''}"
    by metis
  with c h g show ?thesis by simp
qed

text \<open>
  \<^bold>\<open>C5.\<close> Delete removes every record whose id is the given one and keeps the others
  in their order. It answers 200 with status \<^verbatim>\<open>success\<close> exactly when the collection got
  shorter and 404 with status \<^verbatim>\<open>fail\<close> exactly when its length is unchanged. When the ids
  are pairwise distinct and the id is present, the length drops by exactly one, and a get
  on that id afterwards answers 404.
\<close>

theorem delete_book_removes_matches:
  "fst (delete_book i books) = filter (\<lambda>b. \<not> id_is i b) books
   \<and> subseq (fst (delete_book i books)) books
   \<and> (\<exists>res. snd (delete_book i books) = Inr res
        \<and> (code res = 200 \<and> status res = ''success''
             \<longleftrightarrow> length (fst (delete_book i books)) < length books)
        \<and> (code res = 404 \<and> status res = ''fail''
             \<longleftrightarrow> length (fst (delete_book i books)) = length books))
   \<and> (distinct (ids books) \<and> (\<exists>b\<in>set books. id_is i b) \<longrightarrow>
        length (fst (delete_book i books)) + 1 = length books
        \<and> (\<exists>res. get_book i (fst (delete_book i books)) = (fst (delete_book i books), Inr res)
              \<and> code res = 404 \<and> status res = ''fail''))"
proof -
  let ?rest = "filter (\<lambda>b. \<not> id_is i b) books"
  have le: "length ?rest \<le> length books" by (rule length_filter_le)
  have fst_eq: "fst (delete_book i books) = ?rest"
    by (simp add: delete_book_def Let_def)
  have sub: "subseq ?rest books" by simp
  have resp: "\<exists>res. snd (delete_book i books) = Inr res
        \<and> (code res = 200 \<and> status res = ''success'' \<longleftrightarrow> length ?rest < length books)
        \<and> (code res = 404 \<and> status res = ''fail'' \<longleftrightarrow> length ?rest = length books)"
  proof (cases "length ?rest < length books")
    case True
    then show ?thesis by (simp add: delete_book_def Let_def)
  next
    case False
    with le have "length ?rest = length books" by linarith
    then show ?thesis by (simp add: delete_book_def Let_def)
  qed
  have one: "length ?rest + 1 = length books"
    if d: "distinct (ids books)" and b: "b \<in> set books" "id_is i b" for b
  proof -
    have "(\<lambda>y. \<not> id_is i y) = (\<lambda>y. y ''id'' \<noteq> b ''id'')"
      using b(2) by (auto simp: id_is_def)
    moreover have "length (filter (\<lambda>y. y ''id'' \<noteq> b ''id'') books) + 1 = length books"
      using d b(1) unfolding ids_def by (rule filter_one_out)
    ultimately show ?thesis by simp
  qed
  have gone: "\<exists>res. get_book i ?rest = (?rest, Inr res) \<and> code res = 404 \<and> status res = ''fail''"
    by (simp add: get_book_def findBookById_def find_filter_out)
  show ?thesis
    unfolding fst_eq using sub resp one gone unfolding fst_eq by blast
qed

theorem delete_book_witness:
  "distinct (ids seed) \<and> (\<exists>b\<in>set seed. id_is ''1'' b)
   \<and> fst (delete_book ''1'' seed) = [seed ! 1]
   \<and> length (fst (delete_book ''1'' seed)) + 1 = length seed"
proof -
  have h: "distinct (ids seed) \<and> (\<exists>b\<in>set seed. id_is ''1'' b)"
    by (simp add: ids_def seed_def id_is_def)
  have "filter (\<lambda>b. \<not> id_is ''1'' b) seed = [seed ! 1]"
    by (simp add: seed_def id_is_def)
  moreover have "length seed = 2" by (simp add: seed_def)
  ultimately show ?thesis
    using h delete_book_removes_matches [of "''1''" seed] by simp
qed

text \<open>
  \<^bold>\<open>C6.\<close> Listing an empty collection answers 404 with status \<^verbatim>\<open>fail\<close> and message
  \<^verbatim>\<open>No books found\<close>, not an empty success; listing a non-empty collection answers 200
  with status \<^verbatim>\<open>success\<close> and the whole collection, in its current order, as data.
\<close>

theorem get_books_empty_is_not_found:
  "get_books [] = ([], Inr \<lparr>code = 404, status = ''fail'', message = ''No books found'', data = NoData\<rparr>)
   \<and> (books \<noteq> [] \<longrightarrow>
        get_books books = (books, Inr \<lparr>code = 200, status = ''success'',
          message = ''Successfully retrieved all books'', data = AllBooks books\<rparr>))"
  by (simp add: get_books_def)

theorem get_books_witness:
  "seed \<noteq> [] \<and> get_books seed = (seed, Inr \<lparr>code = 200, status = ''success'',
          message = ''Successfully retrieved all books'', data = AllBooks seed\<rparr>)"
  using get_books_empty_is_not_found [of seed] by (simp add: seed_def)

text \<open>
  \<^bold>\<open>C7.\<close> Whenever a handler answers with status \<^verbatim>\<open>fail\<close> (the code is then 400 or
  404), the collection after the request is the collection before it.
\<close>

theorem failure_leaves_collection_untouched:
  assumes "snd (handle r books) = Inr res" and "status res = ''fail''"
  shows "fst (handle r books) = books \<and> (code res = 400 \<or> code res = 404)"
proof (cases r)
  case List
  with assms show ?thesis by (auto simp: get_books_def split: if_splits)
next
  case (Get i)
  with assms show ?thesis by (auto simp: get_book_def split: option.splits)
next
  case (Create body)
  with assms show ?thesis
    by (auto simp: post_book_def Let_def split: if_splits sum.splits)
next
  case (Put i body)
  with assms show ?thesis
    by (auto simp: put_book_def Let_def split: if_splits option.splits)
next
  case (Patch i body)
  with assms show ?thesis
    by (auto simp: patch_book_def Let_def split: option.splits)
next
  case (Delete i)
  have le: "length (filter (\<lambda>b. \<not> id_is i b) books) \<le> length books"
    by (rule length_filter_le)
  from Delete assms have "\<not> length (filter (\<lambda>b. \<not> id_is i b) books) < length books \<and> code res = 404"
    by (auto simp: delete_book_def Let_def split: if_splits)
  with le have "length (filter (\<lambda>b. \<not> id_is i b) books) = length books \<and> code res = 404"
    by linarith
  with Delete filter_keeps_all [of "\<lambda>b. \<not> id_is i b" books] show ?thesis
    by (simp add: delete_book_def Let_def)
qed

theorem failure_leaves_collection_witness:
  "snd (handle (Delete ''999'') seed) =
     Inr \<lparr>code = 404, status = ''fail'', message = ''Book with id 999 not found'', data = NoData\<rparr>
   \<and> fst (handle (Delete ''999'') seed) = seed"
proof -
  have h: "snd (handle (Delete ''999'') seed) =
     Inr \<lparr>code = 404, status = ''fail'', message = ''Book with id 999 not found'', data = NoData\<rparr>"
    by (simp add: delete_book_def seed_def id_is_def Let_def)
  show ?thesis
    using h failure_leaves_collection_untouched [OF h] by simp
qed

text \<open>
  \<^bold>\<open>C8.\<close> No handler reorders the collection: the two reads leave it as it is, create
  leaves it or appends one record at the end, the two updates leave it or replace one
  record in its place, and delete keeps a subsequence of it.
\<close>

theorem handlers_never_reorder:
  "fst (get_books books) = books
   \<and> fst (get_book i books) = books
   \<and> (fst (post_book body books) = books \<or> (\<exists>b. fst (post_book body books) = books @ [b]))
   \<and> (fst (put_book i body books) = books
        \<or> (\<exists>k b. k < length books \<and> fst (put_book i body books) = books[k := b]))
   \<and> (fst (patch_book i body books) = books
        \<or> (\<exists>k b. k < length books \<and> fst (patch_book i body books) = books[k := b]))
   \<and> fst (delete_book i books) = filter (\<lambda>b. \<not> id_is i b) books
   \<and> subseq (fst (delete_book i books)) books"
proof -
  have 1: "fst (get_books books) = books" by (simp add: get_books_def)
  have 2: "fst (get_book i books) = books"
    by (simp add: get_book_def split: option.splits)
  have 3: "fst (post_book body books) = books \<or> (\<exists>b. fst (post_book body books) = books @ [b])"
    by (simp add: post_book_def Let_def split: sum.splits)
  have 4: "fst (put_book i body books) = books
        \<or> (\<exists>k b. k < length books \<and> fst (put_book i body books) = books[k := b])"
  proof (cases "findIndex (id_is i) books")
    case None
    then show ?thesis by (simp add: put_book_def Let_def)
  next
    case (Some k)
    then have "k < length books" using findIndex_Some by blast
    with Some show ?thesis by (auto simp: put_book_def Let_def)
  qed
  have 5: "fst (patch_book i body books) = books
        \<or> (\<exists>k b. k < length books \<and> fst (patch_book i body books) = books[k := b])"
  proof (cases "findIndex (id_is i) books")
    case None
    then show ?thesis by (simp add: patch_book_def)
  next
    case (Some k)
    then have "k < length books" using findIndex_Some by blast
    with Some show ?thesis by (auto simp: patch_book_def Let_def)
  qed
  have 6: "fst (delete_book i books) = filter (\<lambda>b. \<not> id_is i b) books"
    by (simp add: delete_book_def Let_def)
  have 7: "subseq (fst (delete_book i books)) books"
    unfolding 6 by simp
  from 1 2 3 4 5 6 7 show ?thesis by blast
qed

theorem handlers_never_reorder_witness:
  "fst (post_book dune seed) \<noteq> seed \<and> (\<exists>b. fst (post_book dune seed) = seed @ [b])
   \<and> fst (delete_book ''1'' seed) = [seed ! 1]"
proof -
  have "length (fst (post_book dune seed)) = 3"
    by (simp add: post_book_def Let_def dune_def seed_def generateNewId_def split: sum.splits)
  moreover have "length seed = 2" by (simp add: seed_def)
  ultimately have n: "fst (post_book dune seed) \<noteq> seed" by auto
  have "filter (\<lambda>b. \<not> id_is ''1'' b) seed = [seed ! 1]"
    by (simp add: seed_def id_is_def)
  with n handlers_never_reorder [of seed "''1''" dune] show ?thesis by simp
qed

text \<open>
  \<^bold>\<open>C9.\<close> A partial update with the empty body on an id that is present answers 200 and
  leaves the record as it was: merging no properties is the identity. The collection as
  a whole is unchanged and the record is returned as data.
\<close>

theorem patch_empty_body_is_identity:
  assumes "findBookById books i = Some b"
  shows "patch_book i Map.empty books =
    (books, Inr \<lparr>code = 200, status = ''success'',
       message = ''Book with id '' @ i @ '' updated successfully (partial update)'',
       data = OneBook b\<rparr>)"
proof -
  from assms obtain k where k: "findIndex (id_is i) books = Some k" "books ! k = b"
    by (auto simp: findBookById_def findIndex_find split: option.splits)
  have "books[k := books ! k] = books" by (rule list_update_id)
  with k show ?thesis
    by (simp add: patch_book_def Let_def)
qed

theorem patch_empty_body_witness:
  "findBookById seed ''2'' = Some (seed ! 1) \<and> patch_book ''2'' Map.empty seed =
    (seed, Inr \<lparr>code = 200, status = ''success'',
       message = ''Book with id 2 updated successfully (partial update)'',
       data = OneBook (seed ! 1)\<rparr>)"
proof -
  have h: "findBookById seed ''2'' = Some (seed ! 1)"
    by (simp add: findBookById_def seed_def id_is_def)
  show ?thesis using h patch_empty_body_is_identity [OF h] by simp
qed

text \<open>
  \<^bold>\<open>C10.\<close> A successful full update, at the position \<open>k\<close> of the first record with the
  id, keeps every property of that record other than title, author and year (also one that
  a partial update added before), and leaves the length of the collection and every record
  at another position as they were.
\<close>

theorem put_book_keeps_the_rest:
  assumes "findIndex (id_is i) books = Some k" and "complete body"
  shows "\<exists>books'. put_book i body books =
            (books', Inr \<lparr>code = 200, status = ''success'',
               message = ''Book with id '' @ i @ '' updated successfully (full update)'',
               data = OneBook (books' ! k)\<rparr>)
          \<and> length books' = length books
          \<and> (\<forall>j<length books. j \<noteq> k \<longrightarrow> books' ! j = books ! j)
          \<and> (\<forall>f. f \<notin> required \<longrightarrow> (books' ! k) f = (books ! k) f)"
proof -
  from assms(1) have k: "k < length books" using findIndex_Some by blast
  let ?b = "(books ! k)(''title'' := body ''title'', ''author'' := body ''author'', ''year'' := body ''year'')"
  have "put_book i body books =
          (books[k := ?b], Inr \<lparr>code = 200, status = ''success'',
               message = ''Book with id '' @ i @ '' updated successfully (full update)'',
               data = OneBook (books[k := ?b] ! k)\<rparr>)"
    using assms by (simp add: put_book_def complete_def Let_def)
  moreover have "length (books[k := ?b]) = length books" by simp
  moreover have "\<forall>j<length books. j \<noteq> k \<longrightarrow> books[k := ?b] ! j = books ! j" by simp
  moreover have "\<forall>f. f \<notin> required \<longrightarrow> (books[k := ?b] ! k) f = (books ! k) f"
    using k by (simp add: required_def)
  ultimately show ?thesis by blast
qed

theorem put_book_keeps_the_rest_witness:
  "findIndex (id_is ''1'') (run [Patch ''1'' [''genre'' \<mapsto> JStr ''fantasy'']]) = Some 0
   \<and> complete dune
   \<and> (fst (put_book ''1'' dune (run [Patch ''1'' [''genre'' \<mapsto> JStr ''fantasy'']])) ! 0) ''genre''
       = Some (JStr ''fantasy'')
   \<and> fst (put_book ''1'' dune (run [Patch ''1'' [''genre'' \<mapsto> JStr ''fantasy'']])) ! 1 = seed ! 1"
proof -
  let ?s = "run [Patch ''1'' [''genre'' \<mapsto> JStr ''fantasy'']]"
  have h: "findIndex (id_is ''1'') ?s = Some 0"
    by (simp add: patched_seed) (simp add: seed_def id_is_def)
  have c: "complete dune"
    by (simp add: complete_def dune_def)
  have g: "''genre'' \<notin> required" by (simp add: required_def)
  have l: "length ?s = 2" "?s ! 1 = seed ! 1" "(?s ! 0) ''genre'' = Some (JStr ''fantasy'')"
    by (simp_all add: patched_seed)
  from put_book_keeps_the_rest [OF h c] obtain books' where
    b: "put_book ''1'' dune ?s = (books', Inr \<lparr>code = 200, status = ''success'',
               message = ''Book with id '' @ ''1'' @ '' updated successfully (full update)'',
               data = OneBook (books' ! 0)\<rparr>)"
      "\<forall>j<length ?s. j \<noteq> 0 \<longrightarrow> books' ! j = ?s ! j"
      "\<forall>f. f \<notin> required \<longrightarrow> (books' ! 0) f = (?s ! 0) f"
    by blast
  from b(2) l have "books' ! 1 = seed ! 1" by simp
  moreover from b(3) g l have "(books' ! 0) ''genre'' = Some (JStr ''fantasy'')" by simp
  ultimately show ?thesis using h c b(1) by simp
qed

end
